theory Spec2Isabelle
  imports Complex_Main "HOL-Library.AList"
begin

section \<open>The lifecycle manager of lazy_loader.py\<close>

text \<open>
  The class \<open>DracoLazyLoader\<close> keeps two dictionaries, \<open>components\<close> and
  \<open>unload_timers\<close>. Python dictionaries keep insertion order and \<open>unload_all\<close>
  walks \<open>components.keys()\<close> in that order, so both are association lists:
  \<open>map_of\<close> reads a key, \<open>AList.update\<close> writes one (in place when the key exists, at the
  end otherwise, as a Python dictionary does).

  Loader and unloader callbacks are arbitrary Python callables with side effects. They
  are functions on an explicit world \<open>'w\<close> (everything outside the manager that a
  callback can read or change): a loader returns either the exception it raised or the
  instance it built, an unloader either the exception it raised or nothing. Instances are
  Python values, so an instance is \<open>'v option\<close> with \<open>None\<close> for Python's \<open>None\<close>.
  Exceptions \<open>'e\<close> are those derived from \<open>Exception\<close>, the ones \<open>except Exception\<close>
  catches. Callbacks do not call back into the manager, and every method runs under the
  manager's single lock, so one method call is one function application here. The calls
  to \<open>print\<close> and \<open>gc.collect\<close> change nothing the manager reads and are left out.

  Timestamps are the readings of \<open>time.time()\<close>, taken as real numbers of seconds and
  passed to each operation as \<open>now\<close>.

  Names follow the source, with three exceptions forced by the logic: the field
  \<open>instance\<close> is \<open>inst\<close>, the local variable \<open>comp\<close> is \<open>cmp\<close>, and
  \<open>_unload_if_idle\<close> loses its leading underscore.
\<close>

datatype LoadState = NOT_LOADED | LOADING | LOADED | UNLOADING | ERROR

type_synonym ('w, 'v, 'e) loader_func = "'w \<Rightarrow> ('e + 'v option) \<times> 'w"

type_synonym ('w, 'v, 'e) unloader_func = "'v option \<Rightarrow> 'w \<Rightarrow> ('e + unit) \<times> 'w"

record ('w, 'v, 'e) component =
  loader :: "('w, 'v, 'e) loader_func"
  unloader :: "('w, 'v, 'e) unloader_func option"
  state :: LoadState
  inst :: "'v option"
  memory_mb :: real
  last_used :: real
  access_count :: int

text \<open>A \<open>threading.Timer\<close>: its interval, the arguments of its callback
  \<open>_unload_if_idle\<close>, and whether \<open>cancel()\<close> was called on it.\<close>

record timer =
  interval :: int
  args :: "string \<times> int"
  cancelled :: bool

record ('w, 'v, 'e) DracoLazyLoader =
  components :: "(string \<times> ('w, 'v, 'e) component) list"
  unload_timers :: "(string \<times> timer) list"
  default_timeout :: int

text \<open>What \<open>get_component\<close> can raise: \<open>KeyError\<close> for an unregistered name,
  \<open>TimeoutError\<close> from the bounded wait, and the loader's own exception, re-raised.\<close>

datatype 'e error = KeyError string | TimeoutError string | Raised 'e

definition init :: "('w, 'v, 'e) DracoLazyLoader" where
  "init = \<lparr>components = [], unload_timers = [], default_timeout = 60\<rparr>"

definition register_component ::
  "string \<Rightarrow> ('w, 'v, 'e) loader_func \<Rightarrow> ('w, 'v, 'e) unloader_func option \<Rightarrow> real \<Rightarrow>
   ('w, 'v, 'e) DracoLazyLoader \<Rightarrow> ('w, 'v, 'e) DracoLazyLoader" where
  "register_component name loader_func unloader_func estimated_memory_mb m =
     m\<lparr>components := AList.update name
          \<lparr>loader = loader_func, unloader = unloader_func, state = NOT_LOADED, inst = None,
           memory_mb = estimated_memory_mb, last_used = 0, access_count = 0\<rparr>
          (components m)\<rparr>"

text \<open>\<open>if name in self.unload_timers: self.unload_timers[name].cancel()\<close>\<close>

definition cancel_timer :: "string \<Rightarrow> (string \<times> timer) list \<Rightarrow> (string \<times> timer) list" where
  "cancel_timer name timers =
     (case map_of timers name of
        None \<Rightarrow> timers
      | Some t \<Rightarrow> AList.update name (t\<lparr>cancelled := True\<rparr>) timers)"

text \<open>
  The wait of \<open>get_component\<close> on a component that is being loaded:
  \<^verbatim>\<open>
  while comp["state"] == LoadState.LOADING:
      if time.time() - wait_start > 30: raise TimeoutError(...)
      time.sleep(0.1)
  \<close>
  \<open>t\<close> is the reading of the clock in the current round; a round of sleep moves it on
  by a tenth of a second. Nothing else runs meanwhile, so the state is the one the loop
  started with. The result is \<open>True\<close> when the loop raises and \<open>False\<close> when it is left
  by its condition.
\<close>

function wait_loading :: "LoadState \<Rightarrow> real \<Rightarrow> real \<Rightarrow> bool" where
  "wait_loading st wait_start t =
     (if st = LOADING
      then (if t - wait_start > 30 then True else wait_loading st wait_start (t + 1 / 10))
      else False)"
  by pat_completeness auto
termination
proof (relation "measure (\<lambda>(st, wait_start, t). nat \<lceil>(wait_start + 31 - t) * (10::real)\<rceil>)")
  show "wf (measure (\<lambda>(st, wait_start, t). nat \<lceil>(wait_start + 31 - t) * (10::real)\<rceil>))"
    by simp
next
  fix st :: LoadState and wait_start t :: real
  assume "st = LOADING" and le: "\<not> 30 < t - wait_start"
  have eq: "(wait_start + 31 - (t + 1 / 10)) * 10 = (wait_start + 31 - t) * 10 - 1"
    by (simp add: algebra_simps)
  have pos: "0 < \<lceil>(wait_start + 31 - t) * 10\<rceil>"
    using le by (simp add: ceiling_less_iff algebra_simps)
  have "\<lceil>(wait_start + 31 - (t + 1 / 10)) * 10\<rceil> = \<lceil>(wait_start + 31 - t) * 10\<rceil> - 1"
    by (simp only: eq ceiling_diff_one)
  with pos show "((st, wait_start, t + 1 / 10), (st, wait_start, t))
      \<in> measure (\<lambda>(st, wait_start, t). nat \<lceil>(wait_start + 31 - t) * (10::real)\<rceil>)"
    by simp
qed

definition get_component ::
  "string \<Rightarrow> bool \<Rightarrow> real \<Rightarrow> ('w, 'v, 'e) DracoLazyLoader \<times> 'w \<Rightarrow>
   ('e error + 'v option) \<times> ('w, 'v, 'e) DracoLazyLoader \<times> 'w" where
  "get_component name force_reload now mw =
     (case mw of (m, w) \<Rightarrow>
      (case map_of (components m) name of
         None \<Rightarrow> (Inl (KeyError name), m, w)
       | Some cmp \<Rightarrow>
           let m1 = m\<lparr>unload_timers := cancel_timer name (unload_timers m)\<rparr> in
           if state cmp = LOADING \<and> wait_loading (state cmp) now now
           then (Inl (TimeoutError name), m1, w)
           else if force_reload \<or> state cmp \<in> {NOT_LOADED, ERROR}
           then
             (let cmp1 = cmp\<lparr>state := LOADING\<rparr> in
              case loader cmp1 w of
                (Inr instance', w') \<Rightarrow>
                  (Inr instance',
                   m1\<lparr>components := AList.update name
                         (cmp1\<lparr>inst := instance', state := LOADED, last_used := now,
                                access_count := access_count cmp1 + 1\<rparr>)
                         (components m1)\<rparr>,
                   w')
              | (Inl e, w') \<Rightarrow>
                  (Inl (Raised e),
                   m1\<lparr>components := AList.update name (cmp1\<lparr>state := ERROR\<rparr>) (components m1)\<rparr>,
                   w'))
           else
             (Inr (inst cmp),
              m1\<lparr>components := AList.update name
                    (cmp\<lparr>last_used := now, access_count := access_count cmp + 1\<rparr>)
                    (components m1)\<rparr>,
              w)))"

definition schedule_unload ::
  "string \<Rightarrow> int option \<Rightarrow> ('w, 'v, 'e) DracoLazyLoader \<Rightarrow> ('w, 'v, 'e) DracoLazyLoader" where
  "schedule_unload name timeout m =
     (let timeout' = (case timeout of None \<Rightarrow> default_timeout m | Some t \<Rightarrow> t) in
      m\<lparr>unload_timers := AList.update name
           \<lparr>interval = timeout', args = (name, timeout'), cancelled = False\<rparr>
           (cancel_timer name (unload_timers m))\<rparr>)"

definition unload_component ::
  "string \<Rightarrow> ('w, 'v, 'e) DracoLazyLoader \<times> 'w \<Rightarrow> ('w, 'v, 'e) DracoLazyLoader \<times> 'w" where
  "unload_component name mw =
     (case mw of (m, w) \<Rightarrow>
      (case map_of (components m) name of
         None \<Rightarrow> (m, w)
       | Some cmp \<Rightarrow>
           if state cmp = LOADED
           then (case unloader cmp of
                   None \<Rightarrow> (m, w)
                 | Some unloader_func \<Rightarrow>
                     (case unloader_func (inst cmp) w of
                        (Inr u, w') \<Rightarrow>
                          (m\<lparr>components := AList.update name
                                (cmp\<lparr>inst := None, state := NOT_LOADED\<rparr>) (components m)\<rparr>,
                           w')
                      | (Inl e, w') \<Rightarrow> (m, w')))
           else (m, w)))"

definition unload_if_idle ::
  "string \<Rightarrow> int \<Rightarrow> real \<Rightarrow> ('w, 'v, 'e) DracoLazyLoader \<times> 'w \<Rightarrow>
   ('w, 'v, 'e) DracoLazyLoader \<times> 'w" where
  "unload_if_idle name timeout now mw =
     (case mw of (m, w) \<Rightarrow>
      (case map_of (components m) name of
         None \<Rightarrow> (m, w)
       | Some cmp \<Rightarrow>
           let idle_time = now - last_used cmp in
           if idle_time \<ge> real_of_int timeout \<and> state cmp = LOADED
           then unload_component name (m, w)
           else (m, w)))"

definition unload_all ::
  "('w, 'v, 'e) DracoLazyLoader \<times> 'w \<Rightarrow> ('w, 'v, 'e) DracoLazyLoader \<times> 'w" where
  "unload_all mw =
     (case fold unload_component (map fst (components (fst mw))) mw of
        (m', w') \<Rightarrow> (m'\<lparr>unload_timers := []\<rparr>, w'))"

section \<open>Sequences of operations\<close>

text \<open>
  The calls a collaborator or a timer thread can make on the manager. \<open>Idle_check\<close> is a
  fired timer running \<open>_unload_if_idle\<close>; every call that reads the clock carries the
  reading.
\<close>

datatype ('w, 'v, 'e) operation =
    Register string "('w, 'v, 'e) loader_func" "('w, 'v, 'e) unloader_func option" real
  | Acquire string bool real
  | Schedule string "int option"
  | Idle_check string int real
  | Evict string
  | Evict_all

fun step ::
  "('w, 'v, 'e) operation \<Rightarrow> ('w, 'v, 'e) DracoLazyLoader \<times> 'w \<Rightarrow>
   ('w, 'v, 'e) DracoLazyLoader \<times> 'w" where
  "step (Register name loader_func unloader_func mb) (m, w) =
     (register_component name loader_func unloader_func mb m, w)"
| "step (Acquire name force_reload now) (m, w) = snd (get_component name force_reload now (m, w))"
| "step (Schedule name timeout) (m, w) = (schedule_unload name timeout m, w)"
| "step (Idle_check name timeout now) (m, w) = unload_if_idle name timeout now (m, w)"
| "step (Evict name) (m, w) = unload_component name (m, w)"
| "step Evict_all (m, w) = unload_all (m, w)"

text \<open>
  N callers asking for the same component. Every method body is inside
  \<open>with self.lock\<close>, so calls made by several threads run one after the other, each to
  its end; the callers all make the same call, so whatever the order the lock gives them
  they are a list of N calls of \<open>get_component(name)\<close>, one per clock reading. The
  result is what each caller received, in order, and the final manager and world.
\<close>

fun acquire_all ::
  "string \<Rightarrow> real list \<Rightarrow> ('w, 'v, 'e) DracoLazyLoader \<times> 'w \<Rightarrow>
   ('e error + 'v option) list \<times> ('w, 'v, 'e) DracoLazyLoader \<times> 'w" where
  "acquire_all name [] mw = ([], mw)"
| "acquire_all name (now # nows) mw =
     (case get_component name False now mw of
        (r, mw') \<Rightarrow> (case acquire_all name nows mw' of (rs, mw'') \<Rightarrow> (r # rs, mw'')))"

text \<open>A loader that never returns Python's \<open>None\<close> as its instance.\<close>

definition returns_instance :: "('w, 'v, 'e) loader_func \<Rightarrow> bool" where
  "returns_instance loader_func \<longleftrightarrow> (\<forall>w. fst (loader_func w) \<noteq> Inr None)"

text \<open>
  What holds of every descriptor between two calls: a component that is not loaded holds
  no instance, and a loaded one holds an instance when its loader never returns \<open>None\<close>.
\<close>

definition instance_matches_state :: "('w, 'v, 'e) component \<Rightarrow> bool" where
  "instance_matches_state c \<longleftrightarrow>
     (state c = NOT_LOADED \<longrightarrow> inst c = None)
     \<and> (returns_instance (loader c) \<longrightarrow> state c = LOADED \<longrightarrow> inst c \<noteq> None)"

definition components_ok :: "('w, 'v, 'e) DracoLazyLoader \<Rightarrow> bool" where
  "components_ok m \<longleftrightarrow> (\<forall>n c. map_of (components m) n = Some c \<longrightarrow> instance_matches_state c)"

text \<open>No descriptor is in state \<open>LOADING\<close>.\<close>

definition no_load_in_flight :: "('w, 'v, 'e) DracoLazyLoader \<Rightarrow> bool" where
  "no_load_in_flight m \<longleftrightarrow> (\<forall>n c. map_of (components m) n = Some c \<longrightarrow> state c \<noteq> LOADING)"

section \<open>Callbacks for the scenarios\<close>

text \<open>
  The world of the scenarios counts the calls made so far: the first number is the calls
  of the loader, the second the calls of the unloader. \<open>counting_loader\<close> returns 1 on
  its first call, 2 on its second and so on; \<open>flaky_loader\<close> raises on its first call
  and returns normally afterwards; \<open>once_loader\<close> returns 1 on its first call and raises
  afterwards; \<open>failing_loader\<close> raises on every call.
\<close>

definition counting_loader :: "(nat \<times> nat, nat, string) loader_func" where
  "counting_loader w = (Inr (Some (Suc (fst w))), (Suc (fst w), snd w))"

definition flaky_loader :: "(nat \<times> nat, nat, string) loader_func" where
  "flaky_loader w =
     (if fst w = 0 then Inl ''load failed'' else Inr (Some (Suc (fst w))), (Suc (fst w), snd w))"

definition once_loader :: "(nat \<times> nat, nat, string) loader_func" where
  "once_loader w =
     (if fst w = 0 then Inr (Some 1) else Inl ''load failed'', (Suc (fst w), snd w))"

definition failing_loader :: "(nat \<times> nat, nat, string) loader_func" where
  "failing_loader w = (Inl ''load failed'', (Suc (fst w), snd w))"

definition counting_unloader :: "(nat \<times> nat, nat, string) unloader_func" where
  "counting_unloader x w = (Inr (), (fst w, Suc (snd w)))"

definition raising_unloader :: "(nat \<times> nat, nat, string) unloader_func" where
  "raising_unloader x w = (Inl ''unload failed'', (fst w, Suc (snd w)))"

text \<open>The manager after \<open>register_component("model", l, u)\<close> and one
  \<open>get_component("model")\<close> at time \<open>now\<close>, with no call made before.\<close>

definition loaded_model ::
  "(nat \<times> nat, nat, string) loader_func \<Rightarrow> (nat \<times> nat, nat, string) unloader_func option \<Rightarrow>
   real \<Rightarrow> (nat \<times> nat, nat, string) DracoLazyLoader \<times> nat \<times> nat" where
  "loaded_model loader_func unloader_func now =
     snd (get_component ''model'' False now
            (register_component ''model'' loader_func unloader_func 100 init, (0, 0)))"

text \<open>Two components with an unloader: \<open>model\<close> is loaded, \<open>ocr\<close> was never asked for.\<close>

definition model_loaded_ocr_idle ::
  "(nat \<times> nat, nat, string) DracoLazyLoader \<times> nat \<times> nat" where
  "model_loaded_ocr_idle =
     fold step
       [Register ''model'' counting_loader (Some counting_unloader) 100,
        Register ''ocr'' counting_loader (Some counting_unloader) 50,
        Acquire ''model'' False 1]
       (init, (0, 0))"

section \<open>Basic facts\<close>

declare wait_loading.simps [simp del]

lemma wait_loading_LOADING: "wait_loading LOADING wait_start t"
proof (induction "LOADING" wait_start t rule: wait_loading.induct)
  case (1 wait_start t)
  then show ?case
    by (subst wait_loading.simps) simp
qed

lemma wait_loading_iff: "wait_loading st wait_start t \<longleftrightarrow> st = LOADING"
  using wait_loading_LOADING by (subst wait_loading.simps) auto

text \<open>An acquire that finds the component being loaded gives up with
  \<open>TimeoutError\<close>; it cancels the timer of the name and changes nothing else.\<close>

lemma get_component_LOADING:
  assumes "map_of (components m) name = Some c" and "state c = LOADING"
  shows "get_component name force_reload now (m, w)
           = (Inl (TimeoutError name), m\<lparr>unload_timers := cancel_timer name (unload_timers m)\<rparr>, w)"
  using assms by (simp add: get_component_def wait_loading_iff)

lemma map_of_update: "map_of (AList.update k v al) k' = (if k' = k then Some v else map_of al k')"
  by (simp add: update_conv')

lemma get_component_Inr_last_used:
  assumes "get_component name force_reload t1 (m, w) = (Inr v, m', w')"
  shows "map_option last_used (map_of (components m') name) = Some t1"
  using assms
  by (auto simp: get_component_def Let_def map_of_update wait_loading_iff
      split: option.splits if_splits prod.splits sum.splits)

text \<open>The scenarios, evaluated.\<close>

lemmas scenario_defs =
  init_def register_component_def get_component_def unload_component_def unload_if_idle_def
  unload_all_def schedule_unload_def cancel_timer_def Let_def wait_loading_iff
  counting_loader_def flaky_loader_def once_loader_def counting_unloader_def raising_unloader_def

lemma loaded_model_eq:
  assumes "l (0, 0) = (Inr v, w)"
  shows "loaded_model l u now =
     (\<lparr>components = [(''model'', \<lparr>loader = l, unloader = u, state = LOADED,
          inst = v, memory_mb = 100, last_used = now, access_count = 1\<rparr>)],
       unload_timers = [], default_timeout = 60\<rparr>, w)"
  using assms by (simp add: loaded_model_def scenario_defs)

lemma loaded_model_counting:
  "loaded_model counting_loader u now =
     (\<lparr>components = [(''model'', \<lparr>loader = counting_loader, unloader = u, state = LOADED,
          inst = Some 1, memory_mb = 100, last_used = now, access_count = 1\<rparr>)],
       unload_timers = [], default_timeout = 60\<rparr>, (1, 0))"
  by (rule loaded_model_eq) (simp add: counting_loader_def)

lemma model_loaded_ocr_idle_eq:
  "model_loaded_ocr_idle =
     (\<lparr>components =
        [(''model'', \<lparr>loader = counting_loader, unloader = Some counting_unloader, state = LOADED,
           inst = Some 1, memory_mb = 100, last_used = 1, access_count = 1\<rparr>),
         (''ocr'', \<lparr>loader = counting_loader, unloader = Some counting_unloader,
           state = NOT_LOADED, inst = None, memory_mb = 50, last_used = 0, access_count = 0\<rparr>)],
       unload_timers = [], default_timeout = 60\<rparr>, (1, 0))"
  by (simp add: model_loaded_ocr_idle_def scenario_defs)

section \<open>Callers of one component\<close>

lemma acquire_all_loaded:
  assumes "map_of (components m) name = Some c" and "state c = LOADED" and "inst c = v"
  shows "fst (acquire_all name nows (m, w)) = replicate (length nows) (Inr v)
         \<and> snd (snd (acquire_all name nows (m, w))) = w
         \<and> map_option state (map_of (components (fst (snd (acquire_all name nows (m, w))))) name)
             = Some LOADED
         \<and> map_option inst (map_of (components (fst (snd (acquire_all name nows (m, w))))) name)
             = Some v"
  using assms
proof (induction nows arbitrary: m c)
  case Nil
  then show ?case by simp
next
  case (Cons now nows)
  let ?c' = "c\<lparr>last_used := now, access_count := access_count c + 1\<rparr>"
  let ?m' = "m\<lparr>unload_timers := cancel_timer name (unload_timers m),
               components := AList.update name ?c' (components m)\<rparr>"
  have g: "get_component name False now (m, w) = (Inr v, ?m', w)"
    using Cons.prems by (simp add: get_component_def Let_def)
  have "map_of (components ?m') name = Some ?c'" "state ?c' = LOADED" "inst ?c' = v"
    using Cons.prems by (simp_all add: map_of_update)
  from Cons.IH [OF this]
  obtain rs m2 w2 where r: "acquire_all name nows (?m', w) = (rs, m2, w2)"
    and "rs = replicate (length nows) (Inr v)" and "w2 = w"
    and "map_option state (map_of (components m2) name) = Some LOADED"
    and "map_option inst (map_of (components m2) name) = Some v"
    by (cases "acquire_all name nows (?m', w)") simp
  then show ?case
    by (simp add: g)
qed

text \<open>
  Claim C1, as the code has it: let a registered component be in state \<open>NOT_LOADED\<close> and
  let its loader return normally, with instance \<open>v\<close>. When N callers (N at least 1) ask
  for it, the lock running them one after the other, every caller receives \<open>v\<close>, the
  same instance, and the world at the end is the one a single call of the loader left:
  the loader ran exactly once. The component ends \<open>LOADED\<close> with instance \<open>v\<close>, so no
  caller saw a descriptor half way through a load.
\<close>

theorem at_most_one_load:
  assumes "map_of (components m) name = Some c" and "state c = NOT_LOADED"
    and "loader c w = (Inr v, w')" and "nows \<noteq> []"
  shows "fst (acquire_all name nows (m, w)) = replicate (length nows) (Inr v)
         \<and> snd (snd (acquire_all name nows (m, w))) = w'
         \<and> map_option state (map_of (components (fst (snd (acquire_all name nows (m, w))))) name)
             = Some LOADED
         \<and> map_option inst (map_of (components (fst (snd (acquire_all name nows (m, w))))) name)
             = Some v"
proof -
  obtain now rest where nows: "nows = now # rest"
    using assms(4) by (cases nows) auto
  let ?c' = "c\<lparr>state := LOADING, inst := v, state := LOADED, last_used := now,
               access_count := access_count c + 1\<rparr>"
  let ?m' = "m\<lparr>unload_timers := cancel_timer name (unload_timers m),
               components := AList.update name ?c' (components m)\<rparr>"
  have g: "get_component name False now (m, w) = (Inr v, ?m', w')"
    using assms(1-3) by (simp add: get_component_def Let_def)
  have "map_of (components ?m') name = Some ?c'" "state ?c' = LOADED" "inst ?c' = v"
    by (simp_all add: map_of_update)
  from acquire_all_loaded [OF this, of rest w']
  obtain rs m2 w2 where r: "acquire_all name rest (?m', w') = (rs, m2, w2)"
    and "rs = replicate (length rest) (Inr v)" and "w2 = w'"
    and "map_option state (map_of (components m2) name) = Some LOADED"
    and "map_option inst (map_of (components m2) name) = Some v"
    by (cases "acquire_all name rest (?m', w')") simp
  then show ?thesis
    by (simp add: nows g)
qed

text \<open>Three callers of a model with the counting loader: each receives 1, and the loader
  was called once.\<close>

theorem at_most_one_load_witness:
  "fst (acquire_all ''model'' [1, 2, 3]
          (register_component ''model'' counting_loader None 100 init, (0, 0)))
     = [Inr (Some 1), Inr (Some 1), Inr (Some 1)]
   \<and> snd (snd (acquire_all ''model'' [1, 2, 3]
          (register_component ''model'' counting_loader None 100 init, (0, 0)))) = (1, 0)"
proof -
  let ?c = "\<lparr>loader = counting_loader, unloader = None, state = NOT_LOADED,
          inst = None, memory_mb = 100, last_used = 0, access_count = 0\<rparr>"
  have h1: "map_of (components (register_component ''model'' counting_loader None 100 init))
      ''model'' = Some ?c"
    by (simp add: register_component_def init_def)
  have h2: "state ?c = NOT_LOADED" and h3: "loader ?c (0, 0) = (Inr (Some 1), (1, 0))"
    and h4: "[1, 2, 3::real] \<noteq> []"
    by (simp_all add: counting_loader_def)
  show ?thesis
    using at_most_one_load [OF h1 h2 h3 h4] by (simp add: numeral_3_eq_3)
qed

text \<open>When the loader raises, the second caller finds the component in state \<open>ERROR\<close> and
  loads again: two callers, two calls of the loader, and no instance for either.\<close>

theorem at_most_one_load_counterexample:
  "fst (acquire_all ''model'' [1, 2]
          (register_component ''model'' failing_loader None 100 init, (0, 0)))
     = [Inl (Raised ''load failed''), Inl (Raised ''load failed'')]
   \<and> snd (snd (acquire_all ''model'' [1, 2]
          (register_component ''model'' failing_loader None 100 init, (0, 0)))) = (2, 0)"
  by (simp add: scenario_defs failing_loader_def)

section \<open>The bounded wait\<close>

lemma no_load_in_flight_init: "no_load_in_flight init"
  by (simp add: no_load_in_flight_def init_def)

lemma no_load_in_flight_register:
  "no_load_in_flight m \<Longrightarrow> no_load_in_flight (register_component name l u mb m)"
  by (auto simp: no_load_in_flight_def register_component_def map_of_update split: if_splits)

lemma no_load_in_flight_get:
  assumes "no_load_in_flight m"
  shows "no_load_in_flight (fst (snd (get_component name force_reload now (m, w))))"
  using assms
  by (auto simp: no_load_in_flight_def get_component_def Let_def map_of_update
      split: option.splits prod.splits sum.splits if_splits)

lemma no_load_in_flight_schedule:
  "no_load_in_flight m \<Longrightarrow> no_load_in_flight (schedule_unload name timeout m)"
  by (simp add: no_load_in_flight_def schedule_unload_def Let_def)

lemma no_load_in_flight_unload:
  assumes "no_load_in_flight m"
  shows "no_load_in_flight (fst (unload_component name (m, w)))"
  using assms
  by (auto simp: no_load_in_flight_def unload_component_def map_of_update
      split: option.splits prod.splits sum.splits if_splits)

lemma no_load_in_flight_idle:
  assumes "no_load_in_flight m"
  shows "no_load_in_flight (fst (unload_if_idle name timeout now (m, w)))"
  using assms no_load_in_flight_unload [OF assms, of name w]
  by (auto simp: unload_if_idle_def Let_def split: option.splits)

lemma no_load_in_flight_fold_unload:
  "no_load_in_flight (fst mw) \<Longrightarrow> no_load_in_flight (fst (fold unload_component ks mw))"
proof (induction ks arbitrary: mw)
  case Nil
  then show ?case by simp
next
  case (Cons k ks)
  obtain m w where mw: "mw = (m, w)" by (cases mw)
  have "no_load_in_flight (fst (unload_component k mw))"
    using Cons.prems unfolding mw by (simp add: no_load_in_flight_unload)
  then show ?case using Cons.IH by simp
qed

lemma no_load_in_flight_unload_all:
  assumes "no_load_in_flight m"
  shows "no_load_in_flight (fst (unload_all (m, w)))"
proof -
  have "no_load_in_flight (fst (fold unload_component (map fst (components m)) (m, w)))"
    using assms by (intro no_load_in_flight_fold_unload) simp
  then show ?thesis
    by (simp add: unload_all_def no_load_in_flight_def split: prod.splits)
qed

lemma no_load_in_flight_step:
  assumes "no_load_in_flight (fst mw)"
  shows "no_load_in_flight (fst (step op' mw))"
proof -
  obtain m w where mw: "mw = (m, w)" by (cases mw)
  show ?thesis
    using assms unfolding mw
    by (cases op')
      (simp_all add: no_load_in_flight_register no_load_in_flight_get no_load_in_flight_schedule
        no_load_in_flight_idle no_load_in_flight_unload no_load_in_flight_unload_all)
qed

lemma LOADING_unreachable: "no_load_in_flight (fst (fold step ops (init, w)))"
proof -
  have "no_load_in_flight (fst mw) \<Longrightarrow> no_load_in_flight (fst (fold step ops mw))" for mw
    by (induction ops arbitrary: mw) (simp_all add: no_load_in_flight_step)
  then show ?thesis by (simp add: no_load_in_flight_init)
qed

lemma get_component_no_TimeoutError:
  assumes "no_load_in_flight (fst mw)"
  shows "fst (get_component name force_reload now mw) \<noteq> Inl (TimeoutError n)"
proof -
  obtain m w where mw: "mw = (m, w)" by (cases mw)
  show ?thesis
    using assms unfolding mw
    by (auto simp: no_load_in_flight_def get_component_def Let_def
        split: option.splits prod.splits sum.splits)
qed

text \<open>
  Claim C2: the wait of at most 30 seconds on a component in state \<open>LOADING\<close> never
  starts. \<open>get_component\<close> sets \<open>LOADING\<close> and calls the loader inside
  \<open>with self.lock\<close>, so a second caller is held at the lock until the load is over and
  then finds the component \<open>LOADED\<close> or \<open>ERROR\<close>. After any sequence of operations on a
  fresh manager, no acquire ends in \<open>TimeoutError\<close>. In the scenario of the claim the
  first caller's load ends at time 3600; the second caller, let in after that, receives
  the instance instead of failing after the ceiling.
\<close>

theorem TimeoutError_unreachable:
  "fst (get_component name force_reload now (fold step ops (init, w))) \<noteq> Inl (TimeoutError n)
   \<and> fst (get_component ''model'' False 3601 (loaded_model counting_loader None 3600))
       = Inr (Some 1)"
proof
  show "fst (get_component name force_reload now (fold step ops (init, w))) \<noteq> Inl (TimeoutError n)"
    by (rule get_component_no_TimeoutError) (rule LOADING_unreachable)
next
  show "fst (get_component ''model'' False 3601 (loaded_model counting_loader None 3600))
       = Inr (Some 1)"
    by (simp add: loaded_model_counting get_component_def Let_def)
qed

section \<open>Instance and state\<close>

lemma components_ok_init: "components_ok init"
  by (simp add: components_ok_def init_def)

lemma components_ok_register:
  "components_ok m \<Longrightarrow> components_ok (register_component name l u mb m)"
  by (auto simp: components_ok_def register_component_def map_of_update instance_matches_state_def
      split: if_splits)

lemma components_ok_get:
  assumes "components_ok m"
  shows "components_ok (fst (snd (get_component name force_reload now (m, w))))"
proof (cases "map_of (components m) name")
  case None
  with assms show ?thesis by (simp add: get_component_def)
next
  case (Some c)
  then have c: "instance_matches_state c" using assms by (auto simp: components_ok_def)
  obtain r w' where l: "loader c w = (r, w')" by (cases "loader c w")
  have ret: "returns_instance (loader c) \<Longrightarrow> r \<noteq> Inr None"
    using l by (auto simp: returns_instance_def dest: spec [of _ w])
  show ?thesis
    using assms Some c l ret
    by (cases r)
      (auto simp: components_ok_def get_component_def Let_def map_of_update wait_loading_iff
        instance_matches_state_def split: if_splits)
qed

lemma components_ok_schedule:
  "components_ok m \<Longrightarrow> components_ok (schedule_unload name timeout m)"
  by (simp add: components_ok_def schedule_unload_def Let_def)

lemma components_ok_unload:
  assumes "components_ok m"
  shows "components_ok (fst (unload_component name (m, w)))"
  using assms
  by (auto simp: components_ok_def unload_component_def map_of_update instance_matches_state_def
      split: option.splits prod.splits sum.splits if_splits)

lemma components_ok_idle:
  assumes "components_ok m"
  shows "components_ok (fst (unload_if_idle name timeout now (m, w)))"
  using assms components_ok_unload [OF assms, of name w]
  by (auto simp: unload_if_idle_def Let_def split: option.splits)

lemma components_ok_fold_unload:
  "components_ok (fst mw) \<Longrightarrow> components_ok (fst (fold unload_component ks mw))"
proof (induction ks arbitrary: mw)
  case Nil
  then show ?case by simp
next
  case (Cons k ks)
  obtain m w where mw: "mw = (m, w)" by (cases mw)
  have "components_ok (fst (unload_component k mw))"
    using Cons.prems unfolding mw by (simp add: components_ok_unload)
  then show ?case using Cons.IH by simp
qed

lemma components_ok_unload_all:
  assumes "components_ok m"
  shows "components_ok (fst (unload_all (m, w)))"
proof -
  have "components_ok (fst (fold unload_component (map fst (components m)) (m, w)))"
    using assms by (intro components_ok_fold_unload) simp
  then show ?thesis
    by (simp add: unload_all_def components_ok_def split: prod.splits)
qed

lemma components_ok_step:
  assumes "components_ok (fst mw)"
  shows "components_ok (fst (step op' mw))"
proof -
  obtain m w where mw: "mw = (m, w)" by (cases mw)
  show ?thesis
    using assms unfolding mw
    by (cases op')
      (simp_all add: components_ok_register components_ok_get components_ok_schedule
        components_ok_idle components_ok_unload components_ok_unload_all)
qed

lemma components_ok_run:
  "components_ok (fst mw) \<Longrightarrow> components_ok (fst (fold step ops mw))"
  by (induction ops arbitrary: mw) (simp_all add: components_ok_step)

text \<open>
  Claim C3, as the code has it: from a fresh manager, after any sequence of completed
  operations (register, acquire with or without \<open>force_reload\<close> and whether it returns
  or raises, schedule, a fired idle check, unload of one component, unload of all), every
  registered component in state \<open>NOT_LOADED\<close> has no instance, and every component in
  state \<open>LOADED\<close> whose loader never returns \<open>None\<close> has an instance.
\<close>

theorem instance_state_invariant:
  assumes "map_of (components (fst (fold step ops (init, w)))) name = Some c"
  shows "(state c = NOT_LOADED \<longrightarrow> inst c = None)
         \<and> (returns_instance (loader c) \<longrightarrow> state c = LOADED \<longrightarrow> inst c \<noteq> None)"
proof -
  have "components_ok (fst (fold step ops (init, w)))"
    by (rule components_ok_run) (simp add: components_ok_init)
  with assms show ?thesis
    by (auto simp: components_ok_def instance_matches_state_def)
qed

text \<open>
  The invariant at work: after a registration and one acquire the component is loaded and
  holds the instance 1.
\<close>

theorem instance_state_invariant_witness:
  "map_of (components (fst (fold step
       [Register ''model'' counting_loader None 100, Acquire ''model'' False 1] (init, (0, 0)))))
     ''model''
     = Some \<lparr>loader = counting_loader, unloader = None, state = LOADED,
          inst = Some 1, memory_mb = 100, last_used = 1, access_count = 1\<rparr>
   \<and> returns_instance counting_loader
   \<and> Some (1::nat) \<noteq> None"
proof -
  let ?c = "\<lparr>loader = counting_loader, unloader = None, state = LOADED,
          inst = Some (1::nat), memory_mb = 100, last_used = 1, access_count = 1\<rparr>"
  have h: "map_of (components (fst (fold step
       [Register ''model'' counting_loader None 100, Acquire ''model'' False 1] (init, (0, 0)))))
     ''model'' = Some ?c"
    by (simp add: scenario_defs)
  have r: "returns_instance counting_loader"
    by (simp add: returns_instance_def counting_loader_def)
  show ?thesis
    using h r instance_state_invariant [OF h] by simp
qed

text \<open>
  The equivalence of "has an instance" and "is loaded" fails after a forced reload whose
  loader raises: the component is in state \<open>ERROR\<close> and still holds the instance of
  the load before.
\<close>

theorem instance_iff_loaded_counterexample:
  "map_option state (map_of (components (fst (fold step
       [Register ''model'' once_loader None 100, Acquire ''model'' False 1,
        Acquire ''model'' True 2] (init, (0, 0))))) ''model'') = Some ERROR
   \<and> map_option inst (map_of (components (fst (fold step
       [Register ''model'' once_loader None 100, Acquire ''model'' False 1,
        Acquire ''model'' True 2] (init, (0, 0))))) ''model'') = Some (Some 1)"
  by (simp add: scenario_defs)

section \<open>Unloading one component\<close>

text \<open>
  Claim C4, as the code has it: when \<open>unload_component\<close> is called on a component in
  state \<open>LOADED\<close> whose unloader raises, the exception is caught (the call returns
  normally) and the manager is left as it was: the component stays \<open>LOADED\<close> and keeps
  its instance. Only the unloader's effect on the world remains.
\<close>

theorem unloader_raises_stays_loaded:
  assumes "map_of (components m) name = Some c"
    and "state c = LOADED"
    and "unloader c = Some u"
    and "u (inst c) w = (Inl e, w')"
  shows "unload_component name (m, w) = (m, w')"
  using assms by (simp add: unload_component_def)

text \<open>A loaded model whose unloader raises: the manager is unchanged and the unloader
  was called once.\<close>

theorem unloader_raises_stays_loaded_witness:
  "unload_component ''model'' (loaded_model counting_loader (Some raising_unloader) 1)
     = (fst (loaded_model counting_loader (Some raising_unloader) 1), (1, 1))"
proof -
  let ?c = "\<lparr>loader = counting_loader, unloader = Some raising_unloader, state = LOADED,
          inst = Some 1, memory_mb = 100, last_used = 1, access_count = 1\<rparr>"
  have h1: "map_of (components (fst (loaded_model counting_loader (Some raising_unloader) 1)))
      ''model'' = Some ?c"
    by (simp add: loaded_model_counting)
  have h2: "state ?c = LOADED" and h3: "unloader ?c = Some raising_unloader"
    and h4: "raising_unloader (inst ?c) (1, 0) = (Inl ''unload failed'', (1, 1))"
    by (simp_all add: raising_unloader_def)
  show ?thesis
    using unloader_raises_stays_loaded [OF h1 h2 h3 h4] by (simp add: loaded_model_counting)
qed

text \<open>After that call the component is not in state \<open>NOT_LOADED\<close>: it is still
  \<open>LOADED\<close> with the instance 1.\<close>

theorem unloader_raises_counterexample:
  "map_option state (map_of (components (fst (unload_component ''model''
       (loaded_model counting_loader (Some raising_unloader) 1)))) ''model'') = Some LOADED
   \<and> map_option inst (map_of (components (fst (unload_component ''model''
       (loaded_model counting_loader (Some raising_unloader) 1)))) ''model'') = Some (Some 1)"
  by (simp add: loaded_model_counting unload_component_def raising_unloader_def)

section \<open>The counter scenario\<close>

text \<open>
  Claim C5, on the code: register \<open>model\<close> with the counting loader and no unloader.
  The first acquire returns 1 and the second returns 1 again. Then \<open>unload_component\<close>
  is called: its guard asks for an unloader, so it does nothing and the component stays
  \<open>LOADED\<close>. The next acquire returns the cached 1, not 2.
\<close>

theorem counter_scenario_no_unloader:
  "fst (get_component ''model'' False 1
         (register_component ''model'' counting_loader None 100 init, (0, 0))) = Inr (Some 1)
   \<and> fst (get_component ''model'' False 2 (loaded_model counting_loader None 1)) = Inr (Some 1)
   \<and> map_option state (map_of (components (fst (unload_component ''model''
        (snd (get_component ''model'' False 2 (loaded_model counting_loader None 1))))))
        ''model'') = Some LOADED
   \<and> fst (get_component ''model'' False 4 (unload_component ''model''
        (snd (get_component ''model'' False 2 (loaded_model counting_loader None 1)))))
       = Inr (Some 1)
   \<and> fst (get_component ''model'' False 4 (unload_component ''model''
        (snd (get_component ''model'' False 2 (loaded_model counting_loader None 1)))))
       \<noteq> Inr (Some 2)"
  by (simp add: loaded_model_counting scenario_defs)

text \<open>With an unloader that returns normally the same calls end with 2.\<close>

lemma counter_scenario_with_unloader:
  "fst (get_component ''model'' False 4 (unload_component ''model''
        (snd (get_component ''model'' False 2
           (loaded_model counting_loader (Some counting_unloader) 1)))))
       = Inr (Some 2)"
  by (simp add: loaded_model_counting scenario_defs)

section \<open>Unloading all components\<close>

subsection \<open>unload_component on one key\<close>

lemma unload_component_other:
  "k \<noteq> n \<Longrightarrow> map_of (components (fst (unload_component k (m, w)))) n = map_of (components m) n"
  by (auto simp: unload_component_def map_of_update split: option.splits prod.splits sum.splits)

lemma unload_component_keep:
  assumes "map_of (components m) n = Some c" and "state c \<noteq> LOADED \<or> unloader c = None"
  shows "map_of (components (fst (unload_component k (m, w)))) n = Some c"
proof (cases "k = n")
  case True
  with assms show ?thesis by (auto simp: unload_component_def)
next
  case False
  with assms show ?thesis by (simp add: unload_component_other)
qed

lemma unload_component_good:
  assumes "map_of (components m) n = Some c" and "state c = LOADED" and "unloader c = Some u"
    and "\<forall>w. fst (u (inst c) w) = Inr ()"
  shows "map_of (components (fst (unload_component n (m, w)))) n
           = Some (c\<lparr>inst := None, state := NOT_LOADED\<rparr>)"
proof -
  obtain r w' where uw: "u (inst c) w = (r, w')" by (cases "u (inst c) w")
  with assms(4) have "r = Inr ()" by (metis fst_conv)
  with uw assms show ?thesis by (simp add: unload_component_def map_of_update)
qed

lemma unload_component_noop:
  assumes "\<forall>c. map_of (components m) k = Some c \<longrightarrow> state c = LOADED \<longrightarrow> unloader c = None"
  shows "unload_component k (m, w) = (m, w)"
  using assms by (auto simp: unload_component_def split: option.splits)

subsection \<open>The loop of unload_all\<close>

lemma fold_unload_keep:
  assumes "map_of (components (fst mw)) n = Some c" and "state c \<noteq> LOADED \<or> unloader c = None"
  shows "map_of (components (fst (fold unload_component ks mw))) n = Some c"
  using assms
proof (induction ks arbitrary: mw)
  case Nil
  then show ?case by simp
next
  case (Cons k ks)
  obtain m w where mw: "mw = (m, w)" by (cases mw)
  have "map_of (components (fst (unload_component k mw))) n = Some c"
    using Cons.prems unfolding mw by (simp add: unload_component_keep)
  then show ?case using Cons.IH Cons.prems(2) by simp
qed

lemma fold_unload_good:
  assumes "n \<in> set ks" and "map_of (components (fst mw)) n = Some c" and "state c = LOADED"
    and "unloader c = Some u" and "\<forall>w. fst (u (inst c) w) = Inr ()"
  shows "map_of (components (fst (fold unload_component ks mw))) n
           = Some (c\<lparr>inst := None, state := NOT_LOADED\<rparr>)"
  using assms
proof (induction ks arbitrary: mw)
  case Nil
  then show ?case by simp
next
  case (Cons k ks)
  obtain m w where mw: "mw = (m, w)" by (cases mw)
  show ?case
  proof (cases "k = n")
    case True
    have "map_of (components (fst (unload_component k mw))) n
            = Some (c\<lparr>inst := None, state := NOT_LOADED\<rparr>)"
      using Cons.prems True unfolding mw by (simp add: unload_component_good)
    then have "map_of (components (fst (fold unload_component ks (unload_component k mw)))) n
            = Some (c\<lparr>inst := None, state := NOT_LOADED\<rparr>)"
      by (rule fold_unload_keep) simp
    then show ?thesis by simp
  next
    case False
    then have "n \<in> set ks" using Cons.prems(1) by simp
    moreover have "map_of (components (fst (unload_component k mw))) n = Some c"
      using Cons.prems(2) False unfolding mw by (simp add: unload_component_other)
    ultimately show ?thesis using Cons.IH Cons.prems(3-5) by simp
  qed
qed

lemma fold_unload_noop:
  assumes "\<forall>k\<in>set ks. \<forall>c. map_of (components (fst mw)) k = Some c \<longrightarrow> state c = LOADED
             \<longrightarrow> unloader c = None"
  shows "fold unload_component ks mw = mw"
  using assms
proof (induction ks)
  case Nil
  then show ?case by simp
next
  case (Cons k ks)
  obtain m w where mw: "mw = (m, w)" by (cases mw)
  have "unload_component k mw = mw"
    using Cons.prems unfolding mw by (intro unload_component_noop) simp
  then show ?case using Cons by simp
qed

text \<open>
  Claim C6, as the code has it: after \<open>unload_all\<close> no timer is left; every component
  that was \<open>LOADED\<close> and has an unloader that never raises is \<open>NOT_LOADED\<close> with its
  instance cleared; every component that was not \<open>LOADED\<close> is as it was; and when no
  component is left \<open>LOADED\<close>, a second \<open>unload_all\<close> changes nothing, neither in the
  manager nor in the world.
\<close>

theorem unload_all_effect:
  "(case unload_all (m, w) of (m', w') \<Rightarrow>
      unload_timers m' = []
      \<and> (\<forall>n c u. map_of (components m) n = Some c \<and> state c = LOADED \<and> unloader c = Some u
                  \<and> (\<forall>x. fst (u (inst c) x) = Inr ())
            \<longrightarrow> map_of (components m') n = Some (c\<lparr>inst := None, state := NOT_LOADED\<rparr>))
      \<and> (\<forall>n c. map_of (components m) n = Some c \<and> state c \<noteq> LOADED
            \<longrightarrow> map_of (components m') n = Some c)
      \<and> ((\<forall>n c. map_of (components m') n = Some c \<longrightarrow> state c \<noteq> LOADED)
            \<longrightarrow> unload_all (m', w') = (m', w')))"
proof -
  define ks where "ks = map fst (components m)"
  obtain m1 w1 where f: "fold unload_component ks (m, w) = (m1, w1)"
    by (cases "fold unload_component ks (m, w)")
  have ua: "unload_all (m, w) = (m1\<lparr>unload_timers := []\<rparr>, w1)"
    using f by (simp add: unload_all_def ks_def)
  have comps: "components (m1\<lparr>unload_timers := []\<rparr>) = components m1" by simp
  have in_ks: "n \<in> set ks" if "map_of (components m) n = Some c" for n c
    using that unfolding ks_def by (metis map_of_SomeD fst_conv image_eqI set_map)
  have good: "map_of (components m1) n = Some (c\<lparr>inst := None, state := NOT_LOADED\<rparr>)"
    if "map_of (components m) n = Some c" "state c = LOADED" "unloader c = Some u"
      "\<forall>x. fst (u (inst c) x) = Inr ()" for n c u
    using fold_unload_good [of n ks "(m, w)" c u] in_ks that f by simp
  have keep: "map_of (components m1) n = Some c"
    if "map_of (components m) n = Some c" "state c \<noteq> LOADED" for n c
    using fold_unload_keep [of "(m, w)" n c ks] that f by simp
  have again: "unload_all (m1\<lparr>unload_timers := []\<rparr>, w1) = (m1\<lparr>unload_timers := []\<rparr>, w1)"
    if "\<forall>n c. map_of (components m1) n = Some c \<longrightarrow> state c \<noteq> LOADED"
  proof -
    have "fold unload_component (map fst (components m1)) (m1\<lparr>unload_timers := []\<rparr>, w1)
            = (m1\<lparr>unload_timers := []\<rparr>, w1)"
      by (rule fold_unload_noop) (use that in simp)
    then show ?thesis by (simp add: unload_all_def)
  qed
  have timers: "unload_timers (m1\<lparr>unload_timers := []\<rparr>) = []" by simp
  show ?thesis
    unfolding ua prod.case comps
  proof (intro conjI allI impI)
    show "unload_timers (m1\<lparr>unload_timers := []\<rparr>) = []" by (rule timers)
  next
    fix n c u
    assume "map_of (components m) n = Some c \<and> state c = LOADED \<and> unloader c = Some u
              \<and> (\<forall>x. fst (u (inst c) x) = Inr ())"
    then show "map_of (components m1) n = Some (c\<lparr>inst := None, state := NOT_LOADED\<rparr>)"
      using good by blast
  next
    fix n c
    assume "map_of (components m) n = Some c \<and> state c \<noteq> LOADED"
    then show "map_of (components m1) n = Some c"
      using keep by blast
  next
    assume "\<forall>n c. map_of (components m1) n = Some c \<longrightarrow> state c \<noteq> LOADED"
    then show "unload_all (m1\<lparr>unload_timers := []\<rparr>, w1) = (m1\<lparr>unload_timers := []\<rparr>, w1)"
      by (rule again)
  qed
qed

lemma unload_all_model_loaded_ocr_idle:
  "unload_all model_loaded_ocr_idle =
     (\<lparr>components =
        [(''model'', \<lparr>loader = counting_loader, unloader = Some counting_unloader,
           state = NOT_LOADED, inst = None, memory_mb = 100, last_used = 1, access_count = 1\<rparr>),
         (''ocr'', \<lparr>loader = counting_loader, unloader = Some counting_unloader,
           state = NOT_LOADED, inst = None, memory_mb = 50, last_used = 0, access_count = 0\<rparr>)],
       unload_timers = [], default_timeout = 60\<rparr>, (1, 1))"
  by (simp add: model_loaded_ocr_idle_eq unload_all_def unload_component_def counting_unloader_def)

text \<open>A loaded component and an idle one: the first is unloaded, the second is untouched,
  and a second \<open>unload_all\<close> is the identity.\<close>

theorem unload_all_effect_witness:
  "unload_timers (fst (unload_all model_loaded_ocr_idle)) = []
   \<and> map_option state (map_of (components (fst (unload_all model_loaded_ocr_idle))) ''model'')
       = Some NOT_LOADED
   \<and> map_option inst (map_of (components (fst (unload_all model_loaded_ocr_idle))) ''model'')
       = Some None
   \<and> map_of (components (fst (unload_all model_loaded_ocr_idle))) ''ocr''
       = map_of (components (fst model_loaded_ocr_idle)) ''ocr''
   \<and> unload_all (unload_all model_loaded_ocr_idle) = unload_all model_loaded_ocr_idle"
proof -
  let ?c = "\<lparr>loader = counting_loader, unloader = Some counting_unloader, state = LOADED,
           inst = Some (1::nat), memory_mb = 100, last_used = 1, access_count = 1\<rparr>"
  let ?d = "\<lparr>loader = counting_loader, unloader = Some counting_unloader,
           state = NOT_LOADED, inst = None :: nat option, memory_mb = 50, last_used = 0,
           access_count = 0\<rparr>"
  let ?m = "fst model_loaded_ocr_idle" and ?w = "snd model_loaded_ocr_idle"
  let ?m' = "fst (unload_all model_loaded_ocr_idle)"
  let ?w' = "snd (unload_all model_loaded_ocr_idle)"
  have ua: "unload_all (?m, ?w) = (?m', ?w')" by simp
  have h1: "map_of (components ?m) ''model'' = Some ?c \<and> state ?c = LOADED
      \<and> unloader ?c = Some counting_unloader
      \<and> (\<forall>x. fst (counting_unloader (inst ?c) x) = Inr ())"
    by (simp add: model_loaded_ocr_idle_eq counting_unloader_def)
  have h2: "map_of (components ?m) ''ocr'' = Some ?d \<and> state ?d \<noteq> LOADED"
    by (simp add: model_loaded_ocr_idle_eq)
  have h3: "\<forall>n c. map_of (components ?m') n = Some c \<longrightarrow> state c \<noteq> LOADED"
    by (auto simp: unload_all_model_loaded_ocr_idle split: if_splits)
  note E = unload_all_effect [of ?m ?w, unfolded ua prod.case]
  have t: "unload_timers ?m' = []"
    using E by (rule conjunct1)
  have g: "map_of (components ?m') ''model'' = Some (?c\<lparr>inst := None, state := NOT_LOADED\<rparr>)"
    using E [THEN conjunct2, THEN conjunct1, rule_format, OF h1] .
  have k: "map_of (components ?m') ''ocr'' = Some ?d"
    using E [THEN conjunct2, THEN conjunct2, THEN conjunct1, rule_format, OF h2] .
  have i: "unload_all (?m', ?w') = (?m', ?w')"
    using E [THEN conjunct2, THEN conjunct2, THEN conjunct2, THEN mp, OF h3] .
  show ?thesis
    using t g k i h2 by simp
qed

text \<open>A loaded component whose unloader raises is still \<open>LOADED\<close>, with its instance,
  after \<open>unload_all\<close>.\<close>

theorem unload_all_counterexample:
  "map_option state (map_of (components (fst (unload_all
       (loaded_model counting_loader (Some raising_unloader) 1)))) ''model'') = Some LOADED
   \<and> map_option inst (map_of (components (fst (unload_all
       (loaded_model counting_loader (Some raising_unloader) 1)))) ''model'') = Some (Some 1)"
  by (simp add: loaded_model_counting unload_all_def unload_component_def raising_unloader_def)

section \<open>Loading errors\<close>

text \<open>
  Claim C7: let the loader of a registered component raise \<open>e\<close> on one call and return
  \<open>v\<close> on the next. An acquire that calls the loader (the component is not being loaded,
  and it is \<open>NOT_LOADED\<close> or \<open>ERROR\<close> or the reload is forced) propagates \<open>e\<close> and
  leaves the component in state \<open>ERROR\<close>; the next acquire of the same name, forced or
  not, calls the loader again, returns \<open>v\<close> and leaves the component \<open>LOADED\<close> with
  instance \<open>v\<close>.
\<close>

theorem loader_error_retry:
  assumes "map_of (components m) name = Some c"
    and "state c \<noteq> LOADING"
    and "force_reload \<or> state c \<in> {NOT_LOADED, ERROR}"
    and "loader c w = (Inl e, w1)"
    and "loader c w1 = (Inr v, w2)"
  shows "let r1 = get_component name force_reload now (m, w);
             r2 = get_component name force_reload' now' (snd r1)
         in fst r1 = Inl (Raised e) \<and> snd (snd r1) = w1
            \<and> map_option state (map_of (components (fst (snd r1))) name) = Some ERROR
            \<and> fst r2 = Inr v \<and> snd (snd r2) = w2
            \<and> map_option state (map_of (components (fst (snd r2))) name) = Some LOADED
            \<and> map_option inst (map_of (components (fst (snd r2))) name) = Some v"
  using assms by (auto simp: get_component_def Let_def map_of_update wait_loading_iff)

text \<open>A loader that fails once: the first acquire raises, the second returns 2.\<close>

theorem loader_error_retry_witness:
  "fst (get_component ''model'' False 1
          (register_component ''model'' flaky_loader None 100 init, (0, 0)))
     = Inl (Raised ''load failed'')
   \<and> fst (get_component ''model'' False 2
          (snd (get_component ''model'' False 1
             (register_component ''model'' flaky_loader None 100 init, (0, 0)))))
     = Inr (Some 2)"
proof -
  let ?c = "\<lparr>loader = flaky_loader, unloader = None, state = NOT_LOADED,
          inst = None, memory_mb = 100, last_used = 0, access_count = 0\<rparr>"
  have h1: "map_of (components (register_component ''model'' flaky_loader None 100 init))
      ''model'' = Some ?c"
    by (simp add: register_component_def init_def)
  have h2: "state ?c \<noteq> LOADING" and h3: "False \<or> state ?c \<in> {NOT_LOADED, ERROR}"
    and h4: "loader ?c (0, 0) = (Inl ''load failed'', (1, 0))"
    and h5: "loader ?c (1, 0) = (Inr (Some 2), (2, 0))"
    by (simp_all add: flaky_loader_def)
  show ?thesis
    using loader_error_retry [OF h1 h2 h3 h4 h5, of 1 False 2] by (simp add: Let_def)
qed

section \<open>The idle check\<close>

text \<open>
  Claim C8: a fired idle check for \<open>name\<close> with timeout \<open>timeout\<close> at time \<open>now\<close>
  changes nothing, neither a descriptor nor the world, unless \<open>name\<close> is registered, its
  idle time \<open>now - last_used\<close> is at least the timeout and its state is \<open>LOADED\<close>. In
  particular, after an acquire that returned at time \<open>t1\<close>, a check that fires less than
  the timeout after \<open>t1\<close> leaves the fresh instance alone, whenever its timer was set.
\<close>

theorem idle_check_guard:
  "(\<not> (\<exists>c. map_of (components m) name = Some c \<and> real_of_int timeout \<le> now - last_used c
          \<and> state c = LOADED)
      \<longrightarrow> unload_if_idle name timeout now (m, w) = (m, w))
   \<and> (get_component name force_reload t1 (m, w) = (Inr v, m', w') \<and> now - t1 < real_of_int timeout
      \<longrightarrow> unload_if_idle name timeout now (m', w') = (m', w'))"
proof (intro conjI impI)
  assume "\<not> (\<exists>c. map_of (components m) name = Some c \<and> real_of_int timeout \<le> now - last_used c
          \<and> state c = LOADED)"
  then show "unload_if_idle name timeout now (m, w) = (m, w)"
    by (auto simp: unload_if_idle_def Let_def split: option.splits)
next
  assume a: "get_component name force_reload t1 (m, w) = (Inr v, m', w') \<and> now - t1 < real_of_int timeout"
  then have "map_option last_used (map_of (components m') name) = Some t1"
    by (intro get_component_Inr_last_used [of name force_reload t1 m w v m' w']) simp
  with a show "unload_if_idle name timeout now (m', w') = (m', w')"
    by (auto simp: unload_if_idle_def Let_def split: option.splits)
qed

text \<open>A model loaded at time 1 and checked at time 10 with a timeout of 60 seconds, and
  the same model acquired again at time 20 and checked at time 70.\<close>

theorem idle_check_guard_witness:
  "unload_if_idle ''model'' 60 10 (loaded_model counting_loader (Some counting_unloader) 1)
     = loaded_model counting_loader (Some counting_unloader) 1
   \<and> unload_if_idle ''model'' 60 70
       (snd (get_component ''model'' False 20
          (loaded_model counting_loader (Some counting_unloader) 1)))
     = snd (get_component ''model'' False 20
          (loaded_model counting_loader (Some counting_unloader) 1))"
proof -
  let ?m = "\<lparr>components = [(''model'', \<lparr>loader = counting_loader,
          unloader = Some counting_unloader, state = LOADED, inst = Some (1::nat),
          memory_mb = 100, last_used = 1, access_count = 1\<rparr>)],
       unload_timers = [], default_timeout = 60\<rparr>"
  let ?r = "get_component ''model'' False 20 (?m, (1, 0))"
  have a1: "\<not> (\<exists>c. map_of (components ?m) ''model'' = Some c
      \<and> real_of_int 60 \<le> 10 - last_used c \<and> state c = LOADED)"
    by simp
  have a2: "?r = (Inr (Some 1), fst (snd ?r), snd (snd ?r)) \<and> (70::real) - 20 < real_of_int 60"
    by (simp add: get_component_def Let_def cancel_timer_def)
  note G = idle_check_guard [where m = ?m and name = "''model''" and timeout = 60 and w = "(1, 0)"
      and force_reload = False and ?t1.0 = 20 and v = "Some 1" and m' = "fst (snd ?r)"
      and w' = "snd (snd ?r)"]
  have g1: "unload_if_idle ''model'' 60 10 (?m, (1, 0)) = (?m, (1, 0))"
    using G [where now = 10, THEN conjunct1, THEN mp, OF a1] .
  have g2: "unload_if_idle ''model'' 60 70 (fst (snd ?r), snd (snd ?r)) = (fst (snd ?r), snd (snd ?r))"
    using G [where now = 70, THEN conjunct2, THEN mp, OF a2] .
  show ?thesis
    using g1 g2 by (simp add: loaded_model_counting)
qed

section \<open>Scheduling for unregistered names\<close>

text \<open>
  Claim C9: \<open>schedule_unload\<close> has no failing path. Whatever the name, registered or
  not, it installs a fresh timer for it, with the given timeout or the default one, and
  leaves the components alone; and when the name is not registered, the check of that
  timer returns without changing the manager or the world.
\<close>

theorem schedule_unload_unregistered:
  "(let timeout' = (case timeout of None \<Rightarrow> default_timeout m | Some t \<Rightarrow> t);
        m' = schedule_unload name timeout m
    in map_of (unload_timers m') name
         = Some \<lparr>interval = timeout', args = (name, timeout'), cancelled = False\<rparr>
       \<and> components m' = components m
       \<and> (map_of (components m) name = None
            \<longrightarrow> unload_if_idle name timeout' now (m', w) = (m', w)))"
  by (simp add: schedule_unload_def Let_def map_of_update unload_if_idle_def)

text \<open>A timer for a name nobody registered, on a fresh manager.\<close>

theorem schedule_unload_unregistered_witness:
  "map_of (unload_timers (schedule_unload ''ghost'' None
       (init :: (nat, nat, string) DracoLazyLoader))) ''ghost''
     = Some \<lparr>interval = 60, args = (''ghost'', 60), cancelled = False\<rparr>
   \<and> unload_if_idle ''ghost'' 60 100
       (schedule_unload ''ghost'' None (init :: (nat, nat, string) DracoLazyLoader), (0::nat))
     = (schedule_unload ''ghost'' None init, 0)"
proof -
  let ?init = "init :: (nat, nat, string) DracoLazyLoader"
  have h: "map_of (components ?init) ''ghost'' = None"
    by (simp add: init_def)
  have d: "default_timeout ?init = 60"
    by (simp add: init_def)
  show ?thesis
    using h schedule_unload_unregistered
      [where timeout = None and m = ?init and name = "''ghost''" and now = 100 and w = "0::nat"]
    by (simp add: Let_def d)
qed

section \<open>Forced reload\<close>

text \<open>
  Claim C10: on a component in state \<open>LOADED\<close>, an acquire with \<open>force_reload\<close>
  calls the loader again and, when the loader returns \<open>v\<close>, returns \<open>v\<close> and stores it
  as the instance of the component, which stays \<open>LOADED\<close>. The world afterwards is the
  one the loader left: nothing else was called, so the unloader did not run on the
  instance that was replaced.
\<close>

theorem force_reload_replaces:
  assumes "map_of (components m) name = Some c"
    and "state c = LOADED"
    and "loader c w = (Inr v, w')"
  shows "let r = get_component name True now (m, w)
         in fst r = Inr v \<and> snd (snd r) = w'
            \<and> map_option inst (map_of (components (fst (snd r))) name) = Some v
            \<and> map_option state (map_of (components (fst (snd r))) name) = Some LOADED"
  using assms by (auto simp: get_component_def Let_def map_of_update wait_loading_iff)

text \<open>A loaded model with an unloader that counts its calls: the forced reload returns
  the second instance and the unloader's count is still 0.\<close>

theorem force_reload_replaces_witness:
  "fst (get_component ''model'' True 2 (loaded_model counting_loader (Some counting_unloader) 1))
     = Inr (Some 2)
   \<and> snd (snd (get_component ''model'' True 2
        (loaded_model counting_loader (Some counting_unloader) 1))) = (2, 0)"
proof -
  let ?c = "\<lparr>loader = counting_loader, unloader = Some counting_unloader, state = LOADED,
          inst = Some 1, memory_mb = 100, last_used = 1, access_count = 1\<rparr>"
  let ?m = "\<lparr>components = [(''model'', ?c)], unload_timers = [], default_timeout = 60\<rparr>"
  have h1: "map_of (components ?m) ''model'' = Some ?c" by simp
  have h2: "state ?c = LOADED" and h3: "loader ?c (1, 0) = (Inr (Some 2), (2, 0))"
    by (simp_all add: counting_loader_def)
  show ?thesis
    using force_reload_replaces [OF h1 h2 h3, of 2]
    by (simp add: Let_def loaded_model_counting)
qed

end
